theory Spec2Isabelle
  imports Complex_Main "HOL-Library.Multiset"
begin

section \<open>Python string primitives\<close>

text \<open>
  A Python \<open>str\<close> is modelled as a \<open>string\<close>, one \<open>char\<close> per code point; the code
  points covered are those below 256 (ASCII and Latin-1). On that range
  \<open>str.isspace\<close>, and the class \<open>\s\<close> of \<open>re\<close> on a \<open>str\<close> pattern, hold for the code
  points 9 to 13, 28 to 32, 133 and 160, and \<open>str.lower\<close> adds 32 to the letters
  65 to 90 and 192 to 222 (215, the multiplication sign, apart).
\<close>

definition py_isspace :: "char \<Rightarrow> bool" where
  "py_isspace c =
     (let n = (of_char c :: nat)
      in (9 \<le> n \<and> n \<le> 13) \<or> (28 \<le> n \<and> n \<le> 32) \<or> n = 133 \<or> n = 160)"

definition lower_char :: "char \<Rightarrow> char" where
  "lower_char c =
     (let n = (of_char c :: nat)
      in if (65 \<le> n \<and> n \<le> 90) \<or> (192 \<le> n \<and> n \<le> 222 \<and> n \<noteq> 215)
         then char_of (n + 32) else c)"

text \<open>\<^verbatim>\<open>s.lower()\<close>\<close>

definition lower :: "string \<Rightarrow> string" where
  "lower s = map lower_char s"

text \<open>\<^verbatim>\<open>s.strip()\<close>\<close>

definition strip :: "string \<Rightarrow> string" where
  "strip s = rev (dropWhile py_isspace (rev (dropWhile py_isspace s)))"

text \<open>\<^verbatim>\<open>s.startswith(p)\<close> and \<^verbatim>\<open>s.endswith(p)\<close>\<close>

definition startswith :: "string \<Rightarrow> string \<Rightarrow> bool" where
  "startswith s p = (take (length p) s = p)"

definition endswith :: "string \<Rightarrow> string \<Rightarrow> bool" where
  "endswith s p = (length p \<le> length s \<and> drop (length s - length p) s = p)"

text \<open>\<^verbatim>\<open>needle in s\<close> on two strings: \<open>needle\<close> occurs in \<open>s\<close> as a contiguous run.\<close>

fun contains :: "string \<Rightarrow> string \<Rightarrow> bool" where
  "contains [] needle = (needle = [])"
| "contains (c # cs) needle = (startswith (c # cs) needle \<or> contains cs needle)"

text \<open>
  \<^verbatim>\<open>s.replace(old, new, 1)\<close> and \<^verbatim>\<open>s.replace(old, new)\<close> for a non-empty \<open>old\<close>, which
  is what every call of the source passes: the first occurrence from the left, and
  every occurrence from the left without overlap.
\<close>

fun replace_first :: "string \<Rightarrow> string \<Rightarrow> string \<Rightarrow> string" where
  "replace_first old new [] = []"
| "replace_first old new (c # cs) =
     (if old \<noteq> [] \<and> startswith (c # cs) old then new @ drop (length old) (c # cs)
      else c # replace_first old new cs)"

function replace_all :: "string \<Rightarrow> string \<Rightarrow> string \<Rightarrow> string" where
  "replace_all old new [] = []"
| "replace_all old new (c # cs) =
     (if old \<noteq> [] \<and> startswith (c # cs) old
      then new @ replace_all old new (drop (length old) (c # cs))
      else c # replace_all old new cs)"
  by pat_completeness auto
termination
  by (relation "measure (\<lambda>(old, new, s). length s)") auto

text \<open>\<^verbatim>\<open>s.split()\<close>: the maximal runs of characters that are not whitespace.\<close>

fun split_words :: "string \<Rightarrow> string \<Rightarrow> string list" where
  "split_words cur [] = (if cur = [] then [] else [rev cur])"
| "split_words cur (c # cs) =
     (if py_isspace c then (if cur = [] then split_words [] cs else rev cur # split_words [] cs)
      else split_words (c # cur) cs)"

definition py_split :: "string \<Rightarrow> string list" where
  "py_split s = split_words [] s"

section \<open>TextNormalizer: \<open>clean_topic_title\<close>\<close>

definition prefixes :: "string list" where
  "prefixes = [''Introduction to '', ''The '', ''An '', ''A '', ''Fundamentals of '',
     ''Basics of '', ''Advanced '', ''Concepts of '']"

text \<open>
  \<^verbatim>\<open>re.sub(f"^{prefix}", "", cleaned, flags=re.IGNORECASE)\<close>: the pattern is anchored at
  the start of the string and holds letters and spaces only, so it matches when the
  first \<open>length prefix\<close> characters of \<open>cleaned\<close> equal \<open>prefix\<close> up to case, and the
  match is deleted.
\<close>

definition matches_prefix :: "string \<Rightarrow> string \<Rightarrow> bool" where
  "matches_prefix prefix cleaned = (lower (take (length prefix) cleaned) = lower prefix)"

definition sub_prefix :: "string \<Rightarrow> string \<Rightarrow> string" where
  "sub_prefix prefix cleaned =
     (if matches_prefix prefix cleaned then drop (length prefix) cleaned else cleaned)"

text \<open>The loop \<^verbatim>\<open>for prefix in prefixes: cleaned = re.sub(...)\<close>, over any list of prefixes.\<close>

fun strip_prefixes :: "string list \<Rightarrow> string \<Rightarrow> string" where
  "strip_prefixes [] cleaned = cleaned"
| "strip_prefixes (prefix # rest) cleaned = strip_prefixes rest (sub_prefix prefix cleaned)"

text \<open>The naive singularisation that ends \<open>clean_topic_title\<close>.\<close>

definition singularize :: "string \<Rightarrow> string" where
  "singularize cleaned =
     (if endswith (lower cleaned) ''s'' \<and> length cleaned > 2 \<and> \<not> endswith (lower cleaned) ''ss''
      then (if \<not> list_ex (\<lambda>suffix. endswith (lower cleaned) suffix) [''ics'', ''esis'', ''us'']
            then butlast cleaned else cleaned)
      else cleaned)"

definition clean_topic_title :: "string \<Rightarrow> string" where
  "clean_topic_title title = singularize (strip (strip_prefixes prefixes title))"

section \<open>KeywordExtractor: \<open>extract_keywords_from_description\<close>\<close>

text \<open>
  The pattern \<^verbatim>\<open>[;,]\s*|\s+and\s+\<close> tried at the head of a string; the result is what
  follows the match. The first alternative takes a comma or semicolon and all the
  whitespace after it. The second needs a run of whitespace, the letters \<open>and\<close>
  (the pattern is case-sensitive) and at least one more whitespace character; both
  runs are greedy, and giving back whitespace cannot help, as the next character
  would not be the letter \<open>a\<close>.
\<close>

definition match_delimiter :: "string \<Rightarrow> string option" where
  "match_delimiter s =
     (case s of
        [] \<Rightarrow> None
      | c # cs \<Rightarrow>
          if c = CHR '';'' \<or> c = CHR '','' then Some (dropWhile py_isspace cs)
          else if py_isspace c then
            (let r = dropWhile py_isspace cs
             in if startswith r ''and'' \<and> list_ex py_isspace (take 1 (drop 3 r))
                then Some (dropWhile py_isspace (drop 3 r)) else None)
          else None)"

text \<open>
  \<^verbatim>\<open>re.split(r'[;,]\s*|\s+and\s+', s)\<close>: the pieces between the successive leftmost
  matches. No match is empty, so the scan resumes right after each match.
\<close>

function re_split :: "string \<Rightarrow> string list" where
  "re_split [] = [[]]"
| "re_split (c # cs) =
     (case match_delimiter (c # cs) of
        Some r \<Rightarrow> [] # re_split r
      | None \<Rightarrow> (case re_split cs of [] \<Rightarrow> [[c]] | p # ps \<Rightarrow> (c # p) # ps))"
  by pat_completeness auto
termination
proof (relation "measure length")
  fix c cs r
  assume m: "match_delimiter (c # cs) = Some r"
  have d: "length (dropWhile py_isspace (drop n xs)) \<le> length xs" for n and xs :: string
    using length_dropWhile_le [of py_isspace "drop n xs"] by simp
  have "length r \<le> length cs"
    using m d [of 0 cs] d [of 3 "dropWhile py_isspace cs"]
    by (auto simp: match_delimiter_def Let_def split: if_splits)
  then show "(r, c # cs) \<in> measure length" by simp
qed auto

text \<open>\<^verbatim>\<open>re.sub(r'[\).\s]+$', '', part)\<close>: the longest run of closing parentheses, full
  stops and whitespace that ends the string is deleted.\<close>

definition strip_trailing :: "string \<Rightarrow> string" where
  "strip_trailing part =
     rev (dropWhile (\<lambda>c. c = CHR '')'' \<or> c = CHR ''.'' \<or> py_isspace c) (rev part))"

text \<open>\<^verbatim>\<open>re.sub(r'^\s*\(', '', part)\<close>: leading whitespace followed by one opening
  parenthesis is deleted; without the parenthesis nothing is.\<close>

definition strip_leading :: "string \<Rightarrow> string" where
  "strip_leading part =
     (case dropWhile py_isspace part of
        [] \<Rightarrow> part
      | c # r \<Rightarrow> if c = CHR ''('' then r else part)"

text \<open>The first loop, over the pieces of the whole description.\<close>

fun collect_parts :: "string list \<Rightarrow> string list \<Rightarrow> string list" where
  "collect_parts keywords [] = keywords"
| "collect_parts keywords (part # parts) =
     (let part = strip part
      in if part \<noteq> [] then
           (let part = strip_leading (strip_trailing part)
            in if part \<noteq> [] \<and> length part > 3 then collect_parts (keywords @ [part]) parts
               else collect_parts keywords parts)
         else collect_parts keywords parts)"

text \<open>The second loop, over the pieces of what follows the first colon.\<close>

fun collect_more_parts :: "string list \<Rightarrow> string list \<Rightarrow> string list" where
  "collect_more_parts keywords [] = keywords"
| "collect_more_parts keywords (mp # more_parts) =
     (let mp = strip mp
      in if mp \<noteq> [] \<and> length mp > 3 \<and> mp \<notin> set keywords
         then collect_more_parts (keywords @ [mp]) more_parts
         else collect_more_parts keywords more_parts)"

definition unwanted_keywords :: "string list" where
  "unwanted_keywords = [''etc'', ''and so on'', ''such as'', ''e.g.'', ''i.e.'', ''or'',
     ''introduction'', ''basics'', ''advanced'']"

text \<open>The list \<open>keywords\<close> as it stands before \<^verbatim>\<open>list(set(keywords))\<close>.\<close>

definition keyword_list :: "string \<Rightarrow> string list" where
  "keyword_list description =
     (let keywords = collect_parts [] (re_split description);
          keywords =
            (if CHR '':'' \<in> set description then
               (let post_colon = strip (drop 1 (dropWhile (\<lambda>c. c \<noteq> CHR '':'') description))
                in collect_more_parts keywords (re_split post_colon))
             else keywords)
      in filter (\<lambda>kw. lower kw \<notin> set unwanted_keywords \<and> length (py_split kw) \<le> 5) keywords)"

text \<open>
  \<^verbatim>\<open>list(set(keywords))\<close> keeps one copy of each keyword, in an order that Python
  leaves to the hashing of the run. The order is the parameter \<open>set_order\<close>, applied to
  the keywords without their repetitions; \<open>permutes\<close> says that it only reorders.
\<close>

definition permutes :: "(string list \<Rightarrow> string list) \<Rightarrow> bool" where
  "permutes set_order = (\<forall>xs. mset (set_order xs) = mset xs)"

definition extract_keywords_from_description ::
  "(string list \<Rightarrow> string list) \<Rightarrow> string \<Rightarrow> string list" where
  "extract_keywords_from_description set_order description =
     set_order (remdups (keyword_list description))"

section \<open>SearchClient: \<open>search_wikipedia_article\<close>\<close>

datatype error = KeyError string | IndexError

text \<open>
  What one \<^verbatim>\<open>requests.get\<close> with \<^verbatim>\<open>raise_for_status\<close> and \<^verbatim>\<open>json\<close> gives: a
  \<^verbatim>\<open>RequestException\<close>, or the decoded \<^verbatim>\<open>[term, titles, descriptions, urls]\<close>, of which
  the code reads \<^verbatim>\<open>data[1]\<close> and \<^verbatim>\<open>data[3]\<close>. The two lists may differ in length; a
  response is \<open>aligned\<close> when every title has its url.
\<close>

datatype response = RequestException | Results "string list" "string list"

fun aligned :: "response \<Rightarrow> bool" where
  "aligned RequestException = True"
| "aligned (Results titles urls) = (length titles \<le> length urls)"

text \<open>
  The search service is any function of the requests made so far and of the term
  searched, so that it may answer the same term differently at different times. The
  list of the terms requested so far is the state that the functions below pass on.
\<close>

type_synonym service = "string list \<Rightarrow> string \<Rightarrow> response"

record article =
  title :: string
  url :: string

text \<open>The list \<^verbatim>\<open>search_queries_to_try\<close> as it stands when the loop starts.\<close>

definition search_queries_to_try :: "string \<Rightarrow> string list" where
  "search_queries_to_try query_term =
     (let queries = [query_term];
          cleaned_query_term = clean_topic_title query_term;
          queries =
            (if cleaned_query_term \<noteq> [] \<and> lower cleaned_query_term \<noteq> lower query_term
                \<and> cleaned_query_term \<notin> set queries
             then queries @ [cleaned_query_term] else queries)
      in if endswith (lower query_term) '' theory'' then
           (let core_concept =
                  replace_first '' theory'' [] (replace_first '' Theory'' [] query_term)
            in if core_concept \<noteq> [] \<and> lower core_concept \<noteq> lower query_term
                  \<and> core_concept \<notin> set queries
               then queries @ [core_concept] else queries)
         else queries)"

text \<open>The relevance check of one result: equality or containment, either way, up to case.\<close>

definition strong_match :: "string \<Rightarrow> string \<Rightarrow> bool" where
  "strong_match current_search_term t =
     (let lower_query_term = lower current_search_term; lower_found_title = lower t
      in lower_query_term = lower_found_title
         \<or> contains lower_found_title lower_query_term
         \<or> contains lower_query_term lower_found_title)"

text \<open>
  The loop \<^verbatim>\<open>for i in range(len(data[1]))\<close> from index \<open>i\<close> on; \<open>titles\<close> is
  \<^verbatim>\<open>data[1][i:]\<close> and \<open>urls\<close> is the whole of \<^verbatim>\<open>data[3]\<close>, whose read at \<open>i\<close> raises
  \<^verbatim>\<open>IndexError\<close> out of range. The result is the article returned by a strong match,
  if any, and the list \<^verbatim>\<open>found_articles\<close>.
\<close>

fun scan_results ::
  "string \<Rightarrow> nat \<Rightarrow> string list \<Rightarrow> string list \<Rightarrow> article list
     \<Rightarrow> error + (article option \<times> article list)" where
  "scan_results current_search_term i [] urls found_articles = Inr (None, found_articles)"
| "scan_results current_search_term i (t # titles) urls found_articles =
     (if length urls \<le> i then Inl IndexError
      else if strong_match current_search_term t
      then Inr (Some \<lparr>title = t, url = urls ! i\<rparr>, found_articles)
      else scan_results current_search_term (i + 1) titles urls
             (if i = 0 then found_articles @ [\<lparr>title = t, url = urls ! i\<rparr>]
              else found_articles))"

text \<open>
  The loop over the queries. A \<^verbatim>\<open>RequestException\<close> is caught and the next query is
  tried; an \<^verbatim>\<open>IndexError\<close> is not caught. The second component is the list of the
  terms requested, in order.
\<close>

fun try_queries ::
  "service \<Rightarrow> string list \<Rightarrow> string list \<Rightarrow> article list
     \<Rightarrow> (error + article option) \<times> string list" where
  "try_queries svc requested [] found_articles =
     (Inr (case found_articles of [] \<Rightarrow> None | a # _ \<Rightarrow> Some a), requested)"
| "try_queries svc requested (current_search_term # queries) found_articles =
     (case svc requested current_search_term of
        RequestException \<Rightarrow>
          try_queries svc (requested @ [current_search_term]) queries found_articles
      | Results titles urls \<Rightarrow>
          if length titles > 0 then
            (case scan_results current_search_term 0 titles urls found_articles of
               Inl e \<Rightarrow> (Inl e, requested @ [current_search_term])
             | Inr (Some a, found) \<Rightarrow> (Inr (Some a), requested @ [current_search_term])
             | Inr (None, found) \<Rightarrow>
                 try_queries svc (requested @ [current_search_term]) queries found)
          else try_queries svc (requested @ [current_search_term]) queries found_articles)"

definition search_wikipedia_article ::
  "service \<Rightarrow> string list \<Rightarrow> string \<Rightarrow> (error + article option) \<times> string list" where
  "search_wikipedia_article svc requested query_term =
     try_queries svc requested (search_queries_to_try query_term) []"

section \<open>EvidenceLinker: \<open>generate_sources_for_topic\<close>\<close>

record source =
  source_url :: string
  source_type :: string
  source_title :: string
  relevance_score :: rat
  context_for_topic :: string

text \<open>The state of the function body: \<open>sources\<close>, \<open>seen_urls\<close> and the terms requested.\<close>

type_synonym linker_state = "source list \<times> string set \<times> string list"

text \<open>One search and the \<^verbatim>\<open>if wiki_info and wiki_info['url'] not in seen_urls\<close> that
  follows it, for the context and relevance score given.\<close>

definition search_and_add ::
  "service \<Rightarrow> rat \<Rightarrow> string \<Rightarrow> linker_state \<Rightarrow> (error \<times> string list) + linker_state" where
  "search_and_add svc score term st =
     (case st of (sources, seen_urls, requested) \<Rightarrow>
        (case search_wikipedia_article svc requested term of
           (Inl e, requested') \<Rightarrow> Inl (e, requested')
         | (Inr None, requested') \<Rightarrow> Inr (sources, seen_urls, requested')
         | (Inr (Some wiki_info), requested') \<Rightarrow>
             if url wiki_info \<notin> seen_urls then
               Inr (sources @ [\<lparr>source_url = url wiki_info, source_type = ''Wikipedia Article'',
                       source_title = title wiki_info, relevance_score = score,
                       context_for_topic = term\<rparr>],
                    insert (url wiki_info) seen_urls, requested')
             else Inr (sources, seen_urls, requested')))"

text \<open>The loop \<^verbatim>\<open>for sub_topic in sub_topics\<close>.\<close>

fun search_sub_topics ::
  "service \<Rightarrow> string list \<Rightarrow> linker_state \<Rightarrow> (error \<times> string list) + linker_state" where
  "search_sub_topics svc [] st = Inr st"
| "search_sub_topics svc (sub_topic # sub_topics) st =
     (case search_and_add svc (8 / 10) sub_topic st of
        Inl e \<Rightarrow> Inl e
      | Inr st' \<Rightarrow> search_sub_topics svc sub_topics st')"

text \<open>
  The topic is a dictionary from keys to strings. The result is the list returned or
  the exception raised, with the terms requested from the search service, in order.
\<close>

definition generate_sources_for_topic ::
  "(string list \<Rightarrow> string list) \<Rightarrow> service \<Rightarrow> (string \<rightharpoonup> string)
     \<Rightarrow> (error + source list) \<times> string list" where
  "generate_sources_for_topic set_order svc topic_data =
     (case topic_data ''title'' of
        None \<Rightarrow> (Inl (KeyError ''title''), [])
      | Some topic_title \<Rightarrow>
          (case topic_data ''description'' of
             None \<Rightarrow> (Inl (KeyError ''description''), [])
           | Some topic_description \<Rightarrow>
               (case search_and_add svc (9 / 10) topic_title ([], {}, []) of
                  Inl (e, requested) \<Rightarrow> (Inl e, requested)
                | Inr st \<Rightarrow>
                    if topic_description \<noteq> [] then
                      (case search_sub_topics svc
                              (extract_keywords_from_description set_order topic_description) st of
                         Inl (e, requested) \<Rightarrow> (Inl e, requested)
                       | Inr (sources, seen_urls, requested) \<Rightarrow> (Inr sources, requested))
                    else (case st of (sources, seen_urls, requested) \<Rightarrow> (Inr sources, requested)))))"

section \<open>GoalDecomposer: \<open>generate_learning_roadmap\<close>\<close>

text \<open>The values that \<^verbatim>\<open>json.loads\<close> and a request body hold; a number is an integer here.\<close>

datatype json = JNull | JBool bool | JInt int | JStr string | JArr "json list"
  | JObj "(string \<times> json) list"

text \<open>The lines of the prompt, between the line break that opens the literal and the
  four spaces that close it.\<close>

definition prompt_lines :: "string \<Rightarrow> string list" where
  "prompt_lines learning_goal =
     [''    You are an expert educational curriculum designer. Your task is to break down a given learning goal into a structured, step-by-step roadmap of topics.'',
      ''    The topics should progress from easiest to hardest, clearly indicating prerequisites.'',
      '''',
      ''    Provide the output as a JSON array of objects. The entire output MUST be a single, valid JSON array.'',
      ''    Do not include any introductory or concluding text, explanations, or markdown fences (```json) outside of the JSON array itself.'',
      ''    Start directly with `[` and end with `]`.'',
      '''',
      ''    Each object in the JSON array MUST contain all specified keys and valid values:'',
      ''    - \"id\": A unique string identifier for the topic (e.g., \"intro_python\", \"data_structures_1\").'',
      ''            Ensure that all generated `id`s are unique and that no topic is duplicated in the output array.'',
      ''            Consolidate conceptually similar topics under a single, well-defined topic.'',
      ''    - \"title\": The name of the topic.'',
      ''    - \"description\": A brief, concise description of what the topic covers.'',
      ''    - \"difficulty\": A string indicating the estimated difficulty (e.g., \"beginner\", \"intermediate\", \"advanced\").'',
      ''    - \"prerequisites\": An array of \"id\" strings of topics that must be learned before this topic. If no prerequisites, provide an empty array [].'',
      ''                      Ensure that any topic listed as a prerequisite appears earlier in the array than the topic that requires it.'',
      '''',
      ''    Learning Goal: \"'' @ learning_goal @ ''\"'',
      '''',
      ''    Example Output Structure (if the goal was \"Learn Web Development\"):'',
      ''    ['',
      ''      {'',
      ''        \"id\": \"html_basics\",'',
      ''        \"title\": \"HTML Basics\",'',
      ''        \"description\": \"Understanding the fundamental structure of web pages with HTML5.\",'',
      ''        \"difficulty\": \"beginner\",'',
      ''        \"prerequisites\": []'',
      ''      },'',
      ''      {'',
      ''        \"id\": \"css_fundamentals\",'',
      ''        \"title\": \"CSS Fundamentals\",'',
      ''        \"description\": \"Styling web pages with CSS, including selectors, properties, and layout.\",'',
      ''        \"difficulty\": \"beginner\",'',
      ''        \"prerequisites\": [\"html_basics\"]'',
      ''      },'',
      ''      {'',
      ''        \"id\": \"js_intro\",'',
      ''        \"title\": \"Introduction to JavaScript\",'',
      ''        \"description\": \"Basic programming concepts and DOM manipulation using JavaScript.\",'',
      ''        \"difficulty\": \"intermediate\",'',
      ''        \"prerequisites\": [\"html_basics\", \"css_fundamentals\"]'',
      ''      }'',
      ''    ]'',
      '''',
      ''    Now, generate the roadmap for the learning goal: \"'' @ learning_goal @ ''\"'']"

definition prompt :: "string \<Rightarrow> string" where
  "prompt learning_goal =
     ''\<newline>'' @ concat (map (\<lambda>l. l @ ''\<newline>'') (prompt_lines learning_goal)) @ ''    ''"

text \<open>The two branches that remove a fence of backticks from the stripped response.\<close>

definition strip_fences :: "string \<Rightarrow> string" where
  "strip_fences raw_json_string =
     (if startswith raw_json_string ''```json''
      then replace_all ''\<newline>```'' [] (replace_all ''```json\<newline>'' [] raw_json_string)
      else if startswith raw_json_string ''```''
      then replace_all ''\<newline>```'' [] (replace_all ''```\<newline>'' [] raw_json_string)
      else raw_json_string)"

text \<open>
  The body of the \<^verbatim>\<open>try\<close>. The collaborator \<open>generate_content\<close> gives the text of the
  response, or the exception that the call or the read of \<^verbatim>\<open>response.text\<close> raises;
  \<open>json_loads\<close> is \<^verbatim>\<open>json.loads\<close>, \<open>None\<close> when it raises \<^verbatim>\<open>JSONDecodeError\<close>.
\<close>

datatype 'e failure = CollaboratorError 'e | JSONDecodeError

definition parse_response ::
  "(string \<Rightarrow> 'e + string) \<Rightarrow> (string \<Rightarrow> json option) \<Rightarrow> string \<Rightarrow> 'e failure + json" where
  "parse_response generate_content json_loads learning_goal =
     (case generate_content (prompt learning_goal) of
        Inl e \<Rightarrow> Inl (CollaboratorError e)
      | Inr text \<Rightarrow>
          (case json_loads (strip_fences (strip text)) of
             None \<Rightarrow> Inl JSONDecodeError
           | Some topics \<Rightarrow> Inr topics))"

text \<open>The \<^verbatim>\<open>except Exception\<close> turns every failure of the body into the empty list.\<close>

definition generate_learning_roadmap ::
  "(string \<Rightarrow> 'e + string) \<Rightarrow> (string \<Rightarrow> json option) \<Rightarrow> string \<Rightarrow> json" where
  "generate_learning_roadmap generate_content json_loads learning_goal =
     (case parse_response generate_content json_loads learning_goal of
        Inl e \<Rightarrow> JArr []
      | Inr topics \<Rightarrow> topics)"

section \<open>The endpoint \<open>generate_roadmap_endpoint\<close>\<close>

text \<open>Python's truth value of a decoded value; an absent key reads as \<^verbatim>\<open>None\<close>.\<close>

fun truthy :: "json \<Rightarrow> bool" where
  "truthy JNull = False"
| "truthy (JBool b) = b"
| "truthy (JInt n) = (n \<noteq> 0)"
| "truthy (JStr s) = (s \<noteq> [])"
| "truthy (JArr xs) = (xs \<noteq> [])"
| "truthy (JObj kvs) = (kvs \<noteq> [])"

datatype 'e endpoint_error = HTTPException nat string | IngestError 'e

text \<open>
  \<open>ingest_roadmap_into_neo4j\<close> is a parameter: a function of the goal and the user id
  that returns a result or raises. The second component of the endpoint's result lists
  the calls made to it.
\<close>

definition generate_roadmap_endpoint ::
  "(json \<Rightarrow> json \<Rightarrow> 'e + 'r) \<Rightarrow> (string \<rightharpoonup> json)
     \<Rightarrow> ('e endpoint_error + 'r) \<times> (json \<times> json) list" where
  "generate_roadmap_endpoint ingest_roadmap_into_neo4j data =
     (let learning_goal = (case data ''goal'' of None \<Rightarrow> JNull | Some v \<Rightarrow> v);
          user_id = (case data ''user_id'' of None \<Rightarrow> JStr ''user123'' | Some v \<Rightarrow> v)
      in if \<not> truthy learning_goal then (Inl (HTTPException 400 ''Missing learning goal.''), [])
         else (case ingest_roadmap_into_neo4j learning_goal user_id of
                 Inl e \<Rightarrow> (Inl (IngestError e), [(learning_goal, user_id)])
               | Inr result \<Rightarrow> (Inr result, [(learning_goal, user_id)])))"

section \<open>GraphValidator\<close>

datatype difficulty = Beginner | Intermediate | Advanced

record topic =
  topic_id :: string
  topic_title :: string
  topic_description :: string
  topic_difficulty :: difficulty
  prerequisites :: "string list"

text \<open>A report names the position of the topic in the sequence and the offending id.\<close>

datatype violation = DuplicateId nat string | UnresolvedPrerequisite nat string

text \<open>
  Modelled from the spec: the GraphValidator operation, of which the source files hold
  neither the code nor a caller. Following the contract of the component, the topics
  are visited in order with the ids of the topics before them; a topic whose id is
  among those is reported, and so is each of its prerequisite ids that is not among
  them. Nothing is reordered or dropped.
\<close>

fun validate_from :: "nat \<Rightarrow> string list \<Rightarrow> topic list \<Rightarrow> violation list" where
  "validate_from pos earlier [] = []"
| "validate_from pos earlier (t # ts) =
     (if topic_id t \<in> set earlier then [DuplicateId pos (topic_id t)] else [])
     @ map (UnresolvedPrerequisite pos) (filter (\<lambda>p. p \<notin> set earlier) (prerequisites t))
     @ validate_from (pos + 1) (earlier @ [topic_id t]) ts"

definition validate_topics :: "topic list \<Rightarrow> violation list" where
  "validate_topics ts = validate_from 0 [] ts"

text \<open>The three topics of the example in the prompt of \<open>generate_learning_roadmap\<close>.\<close>

definition html_basics :: topic where
  "html_basics = \<lparr>topic_id = ''html_basics'', topic_title = ''HTML Basics'',
     topic_description = ''Understanding the fundamental structure of web pages with HTML5.'',
     topic_difficulty = Beginner, prerequisites = []\<rparr>"

definition css_fundamentals :: topic where
  "css_fundamentals = \<lparr>topic_id = ''css_fundamentals'', topic_title = ''CSS Fundamentals'',
     topic_description = ''Styling web pages with CSS, including selectors, properties, and layout.'',
     topic_difficulty = Beginner, prerequisites = [''html_basics'']\<rparr>"

definition js_intro :: topic where
  "js_intro = \<lparr>topic_id = ''js_intro'', topic_title = ''Introduction to JavaScript'',
     topic_description = ''Basic programming concepts and DOM manipulation using JavaScript.'',
     topic_difficulty = Intermediate, prerequisites = [''html_basics'', ''css_fundamentals'']\<rparr>"

section \<open>Notions used to state the properties\<close>

text \<open>
  The reading of the specification of the prefix step, to compare with
  \<open>strip_prefixes\<close>: only the first prefix of the list that matches is removed.
\<close>

fun strip_first_prefix :: "string list \<Rightarrow> string \<Rightarrow> string" where
  "strip_first_prefix [] s = s"
| "strip_first_prefix (p # ps) s =
     (if matches_prefix p s then drop (length p) s else strip_first_prefix ps s)"

text \<open>The invariant of the body of \<open>generate_sources_for_topic\<close>: the urls of the
  sources differ from one another and all are in \<open>seen_urls\<close>.\<close>

definition urls_unique :: "linker_state \<Rightarrow> bool" where
  "urls_unique st =
     (case st of (sources, seen_urls, requested) \<Rightarrow>
        distinct (map source_url sources) \<and> set (map source_url sources) \<subseteq> seen_urls)"

text \<open>The response that the \<open>k\<close>-th query of \<open>queries\<close> gets when every query before it
  has been requested, after the requests made earlier.\<close>

definition response_at :: "service \<Rightarrow> string list \<Rightarrow> string list \<Rightarrow> nat \<Rightarrow> response" where
  "response_at svc requested queries k = svc (requested @ take k queries) (queries ! k)"

text \<open>A response returned results when its list of titles is not empty; its top-ranked
  result pairs the first title with the first url.\<close>

fun has_results :: "response \<Rightarrow> bool" where
  "has_results RequestException = False"
| "has_results (Results titles urls) = (titles \<noteq> [])"

fun top_result :: "response \<Rightarrow> article option" where
  "top_result (Results (t # titles) (u # urls)) = Some \<lparr>title = t, url = u\<rparr>"
| "top_result r = None"

text \<open>No title of the response equals, contains or is contained in the query, up to case.\<close>

fun no_strong_match :: "string \<Rightarrow> response \<Rightarrow> bool" where
  "no_strong_match q RequestException = True"
| "no_strong_match q (Results titles urls) = list_all (\<lambda>t. \<not> strong_match q t) titles"

text \<open>The top-ranked results of the queries that returned results, in the order of the
  queries.\<close>

fun fallbacks :: "service \<Rightarrow> string list \<Rightarrow> string list \<Rightarrow> article list" where
  "fallbacks svc requested [] = []"
| "fallbacks svc requested (q # queries) =
     (case top_result (svc requested q) of None \<Rightarrow> [] | Some a \<Rightarrow> [a])
     @ fallbacks svc (requested @ [q]) queries"

section \<open>Properties of \<open>clean_topic_title\<close>\<close>

lemma strip_prefixes_append:
  "strip_prefixes (ps @ qs) s = strip_prefixes qs (strip_prefixes ps s)"
  by (induction ps arbitrary: s) simp_all

lemma strip_prefixes_no_match:
  "\<forall>q \<in> set ps. \<not> matches_prefix q s \<Longrightarrow> strip_prefixes ps s = s"
  by (induction ps) (simp_all add: sub_prefix_def)

text \<open>
  Claim C2, as stated, fails: from a title that begins with \<open>The Advanced\<close> the loop
  removes \<open>The\<close> and then \<open>Advanced\<close>, which stands later in the list, whereas removing
  the first matching prefix only would leave \<open>Advanced Calculus\<close>.
\<close>

theorem clean_topic_title_second_prefix_removed:
  "strip_prefixes prefixes ''The Advanced Calculus'' = ''Calculus''
   \<and> strip_first_prefix prefixes ''The Advanced Calculus'' = ''Advanced Calculus''
   \<and> clean_topic_title ''The Advanced Calculus'' = ''Calculus''"
  by code_simp

text \<open>
  Claim C2, amended: \<open>clean_topic_title\<close> removes the first prefix of the fixed list
  that the title begins with, up to case, and from what remains only the prefixes that
  stand later in the list, each tried once in list order. When what remains begins with
  none of those later prefixes, exactly one prefix has been removed.
\<close>

theorem clean_topic_title_strips_in_list_order:
  assumes "prefixes = before @ p # after"
    and "\<forall>q \<in> set before. \<not> matches_prefix q s"
    and "matches_prefix p s"
  shows "clean_topic_title s = singularize (strip (strip_prefixes after (drop (length p) s)))
         \<and> ((\<forall>q \<in> set after. \<not> matches_prefix q (drop (length p) s))
              \<longrightarrow> clean_topic_title s = singularize (strip (drop (length p) s)))"
proof -
  have "strip_prefixes prefixes s = strip_prefixes (p # after) (strip_prefixes before s)"
    by (simp only: assms(1) strip_prefixes_append)
  also have "strip_prefixes before s = s"
    using assms(2) by (rule strip_prefixes_no_match)
  finally have "strip_prefixes prefixes s = strip_prefixes after (drop (length p) s)"
    using assms(3) by (simp add: sub_prefix_def)
  then show ?thesis
    by (simp add: clean_topic_title_def strip_prefixes_no_match)
qed

text \<open>The title \<open>Advanced The Calculus\<close> loses \<open>Advanced\<close> only: \<open>The\<close> stands earlier
  in the list.\<close>

theorem clean_topic_title_strips_in_list_order_witness:
  "clean_topic_title ''Advanced The Calculus'' = ''The Calculus''"
proof -
  have 1: "prefixes = [''Introduction to '', ''The '', ''An '', ''A '', ''Fundamentals of '',
     ''Basics of ''] @ ''Advanced '' # [''Concepts of '']"
    by code_simp
  have 2: "\<forall>q \<in> set [''Introduction to '', ''The '', ''An '', ''A '', ''Fundamentals of '',
     ''Basics of '']. \<not> matches_prefix q ''Advanced The Calculus''"
    by code_simp
  have 3: "matches_prefix ''Advanced '' ''Advanced The Calculus''"
    by code_simp
  have 4: "\<forall>q \<in> set [''Concepts of ''].
     \<not> matches_prefix q (drop (length ''Advanced '') ''Advanced The Calculus'')"
    by code_simp
  have 5: "singularize (strip (drop (length ''Advanced '') ''Advanced The Calculus''))
     = ''The Calculus''"
    by code_simp
  have "clean_topic_title ''Advanced The Calculus''
          = singularize (strip (drop (length ''Advanced '') ''Advanced The Calculus''))"
    using clean_topic_title_strips_in_list_order [OF 1 2 3] 4 by blast
  then show ?thesis
    by (simp only: 5)
qed

section \<open>Properties of \<open>extract_keywords_from_description\<close>\<close>

text \<open>
  What the code computes on the description of the example, and on the same
  description without the comma before \<open>and\<close>. With the comma, the whitespace before
  \<open>and\<close> belongs to the match of the comma, the second alternative of the pattern
  finds no whitespace to start from, and \<open>and\<close> stays at the head of the last piece,
  although the comments of the source say that the text is split on \<open>and\<close>.
\<close>

lemma keyword_list_example:
  "keyword_list ''Covers vector spaces, matrices, and inner products.''
     = [''Covers vector spaces'', ''matrices'', ''and inner products'']"
  by code_simp

lemma keyword_list_example_without_comma:
  "keyword_list ''Covers vector spaces, matrices and inner products.''
     = [''Covers vector spaces'', ''matrices'', ''inner products'']"
  by code_simp

text \<open>
  Claim C3, as stated, fails: on the description of the example the fragment
  \<open>vector spaces\<close> is not among the keywords. The pieces are what stands between
  the delimiters, no step removes a leading word, and the first piece is
  \<open>Covers vector spaces\<close>.
\<close>

theorem extract_keywords_example_misses_fragments:
  "''vector spaces'' \<notin> set (extract_keywords_from_description id
      ''Covers vector spaces, matrices, and inner products.'')"
  by code_simp

text \<open>
  Claim C3, amended: on that description, in whatever order the set is listed, the
  keywords contain \<open>matrices\<close> and the whole first piece \<open>Covers vector spaces\<close>, not
  \<open>vector spaces\<close>; none of the keywords is on the stoplist and each is longer than 3
  characters. Nothing is said of the piece that follows \<open>and\<close>.
\<close>

theorem extract_keywords_example:
  assumes "permutes set_order"
  shows "''Covers vector spaces'' \<in> set (extract_keywords_from_description set_order
            ''Covers vector spaces, matrices, and inner products.'')
       \<and> ''matrices'' \<in> set (extract_keywords_from_description set_order
            ''Covers vector spaces, matrices, and inner products.'')
       \<and> ''vector spaces'' \<notin> set (extract_keywords_from_description set_order
            ''Covers vector spaces, matrices, and inner products.'')
       \<and> (\<forall>kw \<in> set (extract_keywords_from_description set_order
            ''Covers vector spaces, matrices, and inner products.'').
            lower kw \<notin> set unwanted_keywords \<and> length kw > 3)"
proof -
  let ?d = "''Covers vector spaces, matrices, and inner products.''"
  have "mset (set_order (remdups (keyword_list ?d))) = mset (remdups (keyword_list ?d))"
    using assms by (simp add: permutes_def)
  then have "set (set_order (remdups (keyword_list ?d))) = set (remdups (keyword_list ?d))"
    by (rule mset_eq_setD)
  then have s: "set (extract_keywords_from_description set_order ?d)
      = set (keyword_list ?d)"
    by (simp add: extract_keywords_from_description_def)
  have "''Covers vector spaces'' \<in> set (keyword_list ?d)
      \<and> ''matrices'' \<in> set (keyword_list ?d)
      \<and> ''vector spaces'' \<notin> set (keyword_list ?d)
      \<and> (\<forall>kw \<in> set (keyword_list ?d). lower kw \<notin> set unwanted_keywords \<and> length kw > 3)"
    unfolding keyword_list_example by code_simp
  then show ?thesis unfolding s .
qed

theorem extract_keywords_example_witness:
  "permutes rev
   \<and> ''Covers vector spaces'' \<in> set (extract_keywords_from_description rev
            ''Covers vector spaces, matrices, and inner products.'')
   \<and> ''matrices'' \<in> set (extract_keywords_from_description rev
            ''Covers vector spaces, matrices, and inner products.'')
   \<and> ''vector spaces'' \<notin> set (extract_keywords_from_description rev
            ''Covers vector spaces, matrices, and inner products.'')"
proof -
  have p: "permutes rev" by (simp add: permutes_def)
  from extract_keywords_example [OF p] p show ?thesis by blast
qed

section \<open>Properties of \<open>search_wikipedia_article\<close>\<close>

lemma search_queries_to_try_first:
  "\<exists>rest. search_queries_to_try q = q # rest"
  by (simp add: search_queries_to_try_def Let_def)

text \<open>
  Claim C5: when the first response to the query term has a top-ranked result whose
  title equals the term up to case, that result is returned, the term is the only
  request made, and the result does not depend on the lower-ranked titles and urls,
  whatever they are.
\<close>

theorem search_wikipedia_article_exact_first:
  assumes "svc requested q = Results (t # titles) (u # urls)"
    and "lower t = lower q"
  shows "search_wikipedia_article svc requested q
           = (Inr (Some \<lparr>title = t, url = u\<rparr>), requested @ [q])"
proof -
  obtain rest where r: "search_queries_to_try q = q # rest"
    using search_queries_to_try_first by blast
  have "strong_match q t"
    using assms(2) by (simp add: strong_match_def Let_def)
  then show ?thesis
    using assms(1) by (simp add: search_wikipedia_article_def r)
qed

theorem search_wikipedia_article_exact_first_witness:
  "search_wikipedia_article
     (\<lambda>requested q. Results [''Matrices'', ''Matrix (mathematics)''] [''u1'', ''u2''])
     [] ''matrices''
   = (Inr (Some \<lparr>title = ''Matrices'', url = ''u1''\<rparr>), [''matrices''])"
proof -
  have l: "lower ''Matrices'' = lower ''matrices''"
    by code_simp
  show ?thesis
    using search_wikipedia_article_exact_first
      [of "\<lambda>requested q. Results [''Matrices'', ''Matrix (mathematics)''] [''u1'', ''u2'']"
          "[]" "''matrices''" "''Matrices''" "[''Matrix (mathematics)'']" "''u1''" "[''u2'']",
       OF _ l]
    by simp
qed

lemma scan_results_no_match:
  "list_all (\<lambda>t. \<not> strong_match q t) titles \<Longrightarrow> i + length titles \<le> length urls \<Longrightarrow>
   scan_results q i titles urls found
     = Inr (None, if i = 0 \<and> titles \<noteq> []
                  then found @ [\<lparr>title = hd titles, url = urls ! 0\<rparr>] else found)"
  by (induction titles arbitrary: i found) auto

lemma response_at_0: "response_at svc requested (q # queries) 0 = svc requested q"
  by (simp add: response_at_def)

lemma response_at_Suc:
  "response_at svc requested (q # queries) (Suc k) = response_at svc (requested @ [q]) queries k"
  by (simp add: response_at_def)

lemma try_queries_no_match:
  "\<forall>k < length queries. aligned (response_at svc requested queries k)
       \<and> no_strong_match (queries ! k) (response_at svc requested queries k) \<Longrightarrow>
   try_queries svc requested queries found
     = (Inr (case found @ fallbacks svc requested queries of [] \<Rightarrow> None | a # _ \<Rightarrow> Some a),
        requested @ queries)"
proof (induction queries arbitrary: requested found)
  case Nil
  then show ?case by simp
next
  case (Cons q queries)
  have rest: "\<forall>k < length queries. aligned (response_at svc (requested @ [q]) queries k)
       \<and> no_strong_match (queries ! k) (response_at svc (requested @ [q]) queries k)"
  proof (intro allI impI)
    fix k assume "k < length queries"
    then have "Suc k < length (q # queries)" by simp
    with Cons.prems have "aligned (response_at svc requested (q # queries) (Suc k))
       \<and> no_strong_match ((q # queries) ! Suc k) (response_at svc requested (q # queries) (Suc k))"
      by blast
    then show "aligned (response_at svc (requested @ [q]) queries k)
       \<and> no_strong_match (queries ! k) (response_at svc (requested @ [q]) queries k)"
      by (simp add: response_at_Suc)
  qed
  note IH = Cons.IH [OF rest]
  from Cons.prems have first: "aligned (svc requested q) \<and> no_strong_match q (svc requested q)"
    using response_at_0 [of svc requested q queries] by fastforce
  show ?case
  proof (cases "svc requested q")
    case RequestException
    then show ?thesis by (simp add: IH)
  next
    case (Results titles urls)
    show ?thesis
    proof (cases titles)
      case Nil
      with Results show ?thesis by (simp add: IH)
    next
      case (Cons t ts)
      with Results first obtain u us where u: "urls = u # us"
        by (cases urls) auto
      from Results first Cons u show ?thesis
        by (simp add: scan_results_no_match IH)
    qed
  qed
qed

lemma top_result_has_results: "top_result r = Some a \<Longrightarrow> has_results r"
  by (cases r rule: top_result.cases) auto

lemma fallbacks_none:
  "\<forall>k < length queries. \<not> has_results (response_at svc requested queries k) \<Longrightarrow>
   fallbacks svc requested queries = []"
proof (induction queries arbitrary: requested)
  case Nil
  then show ?case by simp
next
  case (Cons q queries)
  have "\<not> has_results (svc requested q)"
    using Cons.prems response_at_0 [of svc requested q queries] by fastforce
  then have t: "top_result (svc requested q) = None"
    using top_result_has_results by (cases "top_result (svc requested q)") auto
  have "\<forall>k < length queries. \<not> has_results (response_at svc (requested @ [q]) queries k)"
    using Cons.prems response_at_Suc [of svc requested q queries] by fastforce
  then show ?case
    using Cons.IH t by simp
qed

lemma top_result_aligned:
  "has_results r \<Longrightarrow> aligned r \<Longrightarrow> \<exists>a. top_result r = Some a"
  by (cases r rule: top_result.cases) auto

lemma fallbacks_first:
  "k < length queries \<Longrightarrow> has_results (response_at svc requested queries k) \<Longrightarrow>
   aligned (response_at svc requested queries k) \<Longrightarrow>
   \<forall>j < k. \<not> has_results (response_at svc requested queries j) \<Longrightarrow>
   \<exists>a rest. top_result (response_at svc requested queries k) = Some a
      \<and> fallbacks svc requested queries = a # rest"
proof (induction queries arbitrary: requested k)
  case Nil
  then show ?case by simp
next
  case (Cons q queries)
  show ?case
  proof (cases k)
    case 0
    with Cons.prems obtain a where "top_result (svc requested q) = Some a"
      using top_result_aligned [of "svc requested q"] by (auto simp: response_at_0)
    with 0 show ?thesis by (simp add: response_at_0)
  next
    case (Suc k')
    with Cons.prems have "\<not> has_results (response_at svc requested (q # queries) 0)"
      by blast
    then have t: "top_result (svc requested q) = None"
      using top_result_has_results [of "svc requested q"]
      by (cases "top_result (svc requested q)") (auto simp: response_at_0)
    have "\<forall>j < k'. \<not> has_results (response_at svc (requested @ [q]) queries j)"
    proof (intro allI impI)
      fix j assume "j < k'"
      then have "Suc j < k" using Suc by simp
      with Cons.prems(4) have "\<not> has_results (response_at svc requested (q # queries) (Suc j))"
        by blast
      then show "\<not> has_results (response_at svc (requested @ [q]) queries j)"
        by (simp add: response_at_Suc)
    qed
    with Cons.IH [of k' "requested @ [q]"] Cons.prems Suc t show ?thesis
      by (simp add: response_at_Suc)
  qed
qed

text \<open>
  Claim C4: let every response that the queries get be aligned and hold no title that
  equals, contains or is contained in its query, up to case. Then every query is
  requested, in order, and nothing is raised; the result is \<open>None\<close> when no response
  returned results, and otherwise the top-ranked result of the earliest query whose
  response returned results.
\<close>

theorem search_wikipedia_article_fallback:
  assumes "\<forall>k < length (search_queries_to_try q).
      aligned (response_at svc requested (search_queries_to_try q) k)
      \<and> no_strong_match (search_queries_to_try q ! k)
          (response_at svc requested (search_queries_to_try q) k)"
  shows "snd (search_wikipedia_article svc requested q) = requested @ search_queries_to_try q
     \<and> ((\<forall>k < length (search_queries_to_try q).
            \<not> has_results (response_at svc requested (search_queries_to_try q) k))
          \<longrightarrow> fst (search_wikipedia_article svc requested q) = Inr None)
     \<and> (\<forall>k < length (search_queries_to_try q).
           has_results (response_at svc requested (search_queries_to_try q) k)
           \<and> (\<forall>j < k. \<not> has_results (response_at svc requested (search_queries_to_try q) j))
           \<longrightarrow> top_result (response_at svc requested (search_queries_to_try q) k) \<noteq> None
               \<and> fst (search_wikipedia_article svc requested q)
                   = Inr (top_result (response_at svc requested (search_queries_to_try q) k)))"
proof -
  let ?qs = "search_queries_to_try q"
  let ?r = "case fallbacks svc requested ?qs of [] \<Rightarrow> None | a # _ \<Rightarrow> Some a"
  have run: "search_wikipedia_article svc requested q = (Inr ?r, requested @ ?qs)"
    using try_queries_no_match [OF assms, of "[]"]
    by (simp add: search_wikipedia_article_def)
  have none: "(\<forall>k < length ?qs. \<not> has_results (response_at svc requested ?qs k)) \<longrightarrow> ?r = None"
    by (simp add: fallbacks_none)
  have some: "\<forall>k < length ?qs.
       has_results (response_at svc requested ?qs k)
       \<and> (\<forall>j < k. \<not> has_results (response_at svc requested ?qs j))
       \<longrightarrow> top_result (response_at svc requested ?qs k) \<noteq> None
           \<and> ?r = top_result (response_at svc requested ?qs k)"
  proof (intro allI impI)
    fix k assume k: "k < length ?qs"
      and h: "has_results (response_at svc requested ?qs k)
       \<and> (\<forall>j < k. \<not> has_results (response_at svc requested ?qs j))"
    from assms k have "aligned (response_at svc requested ?qs k)" by blast
    with fallbacks_first [of k ?qs svc requested] k h
    obtain a rest where "top_result (response_at svc requested ?qs k) = Some a"
      and "fallbacks svc requested ?qs = a # rest"
      by blast
    then show "top_result (response_at svc requested ?qs k) \<noteq> None
       \<and> ?r = top_result (response_at svc requested ?qs k)"
      by simp
  qed
  from none some show ?thesis
    unfolding run fst_conv snd_conv sum.inject by blast
qed

text \<open>The first query gets no results and the second gets two, neither a strong match:
  the top-ranked of the two is returned, after two requests.\<close>

theorem search_wikipedia_article_fallback_witness:
  "search_wikipedia_article
     (\<lambda>requested q. if requested = [] then Results [] []
        else Results [''Linear map'', ''Determinant''] [''u1'', ''u2''])
     [] ''Matrices''
   = (Inr (Some \<lparr>title = ''Linear map'', url = ''u1''\<rparr>), [''Matrices'', ''Matrice''])"
proof -
  let ?svc = "\<lambda>(requested :: string list) (q :: string). if requested = [] then Results [] []
        else Results [''Linear map'', ''Determinant''] [''u1'', ''u2'']"
  let ?qs = "[''Matrices'', ''Matrice'']"
  have qs: "search_queries_to_try ''Matrices'' = ?qs"
    by code_simp
  have m: "\<not> strong_match ''Matrice'' ''Linear map''" "\<not> strong_match ''Matrice'' ''Determinant''"
    by code_simp+
  have r0: "response_at ?svc [] ?qs 0 = Results [] []"
    by (simp add: response_at_def)
  have r1: "response_at ?svc [] ?qs 1 = Results [''Linear map'', ''Determinant''] [''u1'', ''u2'']"
    by (simp add: response_at_def)
  have h: "\<forall>k < length ?qs. aligned (response_at ?svc [] ?qs k)
      \<and> no_strong_match (?qs ! k) (response_at ?svc [] ?qs k)"
  proof (intro allI impI)
    fix k :: nat
    assume "k < length ?qs"
    then have "k = 0 \<or> k = 1" by auto
    then show "aligned (response_at ?svc [] ?qs k)
      \<and> no_strong_match (?qs ! k) (response_at ?svc [] ?qs k)"
    proof
      assume "k = 0"
      then show ?thesis by (simp only: r0) simp
    next
      assume "k = 1"
      then show ?thesis by (simp only: r1) (simp add: m)
    qed
  qed
  note t = search_wikipedia_article_fallback [of "''Matrices''" ?svc "[]", unfolded qs, OF h]
  have s: "snd (search_wikipedia_article ?svc [] ''Matrices'') = ?qs"
    using t [THEN conjunct1] by simp
  have p: "has_results (response_at ?svc [] ?qs 1)
           \<and> (\<forall>j < 1. \<not> has_results (response_at ?svc [] ?qs j))"
  proof (intro conjI allI impI)
    show "has_results (response_at ?svc [] ?qs 1)"
      by (simp only: r1) simp
  next
    fix j :: nat
    assume "j < 1"
    then have "j = 0" by simp
    then show "\<not> has_results (response_at ?svc [] ?qs j)"
      by (simp only: r0) simp
  qed
  have l: "(1::nat) < length ?qs" by simp
  have "fst (search_wikipedia_article ?svc [] ''Matrices'')
          = Inr (top_result (response_at ?svc [] ?qs 1))"
    using t [THEN conjunct2, THEN conjunct2, rule_format, OF l p] by (rule conjunct2)
  then have f: "fst (search_wikipedia_article ?svc [] ''Matrices'')
          = Inr (Some \<lparr>title = ''Linear map'', url = ''u1''\<rparr>)"
    by (simp only: r1 top_result.simps)
  show ?thesis
    using f s by (simp only: prod_eq_iff fst_conv snd_conv)
qed

text \<open>
  Claim C8 against the code: the term \<open>String THEORY\<close> ends in \<open>theory\<close> up to case,
  yet the only query is the term itself, since the two replacements look for
  \<open>Theory\<close> and \<open>theory\<close> in these two spellings only. They also remove the first
  occurrence of each spelling, wherever it stands, not the suffix.
\<close>

theorem search_queries_to_try_upper_case_theory:
  "endswith (lower ''String THEORY'') '' theory''
   \<and> search_queries_to_try ''String THEORY'' = [''String THEORY'']
   \<and> search_queries_to_try ''Set theory of Group Theory''
       = [''Set theory of Group Theory'', ''Set of Group'']"
  by code_simp

section \<open>Properties of \<open>generate_sources_for_topic\<close>\<close>

lemma search_and_add_urls_unique:
  "search_and_add svc score term st = Inr st' \<Longrightarrow> urls_unique st \<Longrightarrow> urls_unique st'"
  by (fastforce simp: search_and_add_def urls_unique_def
        split: prod.splits sum.splits option.splits if_splits)

lemma search_sub_topics_urls_unique:
  "search_sub_topics svc sub_topics st = Inr st' \<Longrightarrow> urls_unique st \<Longrightarrow> urls_unique st'"
proof (induction sub_topics arbitrary: st)
  case Nil
  then show ?case by simp
next
  case (Cons sub_topic sub_topics)
  then show ?case
    by (auto split: sum.splits dest: search_and_add_urls_unique)
qed

text \<open>With aligned responses and both keys present no exception is raised: a list is
  returned.\<close>

lemma scan_results_aligned:
  "i + length titles \<le> length urls \<Longrightarrow> \<exists>r. scan_results q i titles urls found = Inr r"
  by (induction titles arbitrary: i found) auto

lemma try_queries_aligned:
  "\<forall>requested q. aligned (svc requested q) \<Longrightarrow>
   \<exists>r. fst (try_queries svc requested queries found) = Inr r"
proof (induction queries arbitrary: requested found)
  case Nil
  then show ?case by simp
next
  case (Cons q queries)
  show ?case
  proof (cases "svc requested q")
    case RequestException
    then show ?thesis using Cons by simp
  next
    case (Results titles urls)
    with Cons.prems have "aligned (Results titles urls)" by metis
    then have "0 + length titles \<le> length urls" by simp
    then obtain r where "scan_results q 0 titles urls found = Inr r"
      using scan_results_aligned by blast
    with Results Cons show ?thesis
      by (cases r) (auto split: option.splits)
  qed
qed

lemma search_and_add_aligned:
  assumes "\<forall>requested q. aligned (svc requested q)"
  shows "\<exists>st'. search_and_add svc score term st = Inr st'"
proof -
  obtain sources seen_urls requested where st: "st = (sources, seen_urls, requested)"
    by (cases st) auto
  obtain r where "fst (try_queries svc requested (search_queries_to_try term) []) = Inr r"
    using try_queries_aligned [OF assms] by blast
  then obtain requested' where
    "search_wikipedia_article svc requested term = (Inr r, requested')"
    by (cases "try_queries svc requested (search_queries_to_try term) []")
      (simp add: search_wikipedia_article_def)
  then show ?thesis
    by (cases r) (simp_all add: search_and_add_def st)
qed

lemma search_sub_topics_aligned:
  assumes "\<forall>requested q. aligned (svc requested q)"
  shows "\<exists>st'. search_sub_topics svc sub_topics st = Inr st'"
proof (induction sub_topics arbitrary: st)
  case Nil
  show ?case by (simp only: search_sub_topics.simps) blast
next
  case (Cons sub_topic sub_topics)
  obtain st' where "search_and_add svc (8 / 10) sub_topic st = Inr st'"
    using search_and_add_aligned [OF assms] by blast
  then show ?case
    using Cons.IH [of st'] by simp
qed

lemma generate_sources_for_topic_returns:
  assumes "\<forall>requested q. aligned (svc requested q)"
    and "topic_data ''title'' = Some ttl"
    and "topic_data ''description'' = Some descr"
  shows "\<exists>sources. fst (generate_sources_for_topic set_order svc topic_data) = Inr sources"
proof -
  obtain st where a: "search_and_add svc (9 / 10) ttl ([], {}, []) = Inr st"
    using search_and_add_aligned [OF assms(1)] by blast
  obtain st' where b: "search_sub_topics svc
      (extract_keywords_from_description set_order descr) st = Inr st'"
    using search_sub_topics_aligned [OF assms(1)] by blast
  show ?thesis
    using assms(2,3) a b
    by (auto simp: generate_sources_for_topic_def split: prod.splits)
qed

text \<open>
  Claim C1: whatever the search service answers and in whatever order the sub-topics
  are searched, the urls of the sources in the list returned differ from one another.
\<close>

theorem generate_sources_for_topic_urls_distinct:
  assumes "fst (generate_sources_for_topic set_order svc topic_data) = Inr sources"
  shows "distinct (map source_url sources)"
proof -
  have init: "urls_unique ([], {}, [])"
    by (simp add: urls_unique_def)
  from assms obtain topic_title topic_description st
    where t: "topic_data ''title'' = Some topic_title"
      and d: "topic_data ''description'' = Some topic_description"
      and a: "search_and_add svc (9 / 10) topic_title ([], {}, []) = Inr st"
    by (auto simp: generate_sources_for_topic_def split: option.splits sum.splits prod.splits)
  have u: "urls_unique st"
    using a init by (rule search_and_add_urls_unique)
  show ?thesis
  proof (cases "topic_description = []")
    case True
    with assms t d a have "\<exists>seen_urls requested. st = (sources, seen_urls, requested)"
      by (auto simp: generate_sources_for_topic_def split: prod.splits)
    with u show ?thesis by (auto simp: urls_unique_def)
  next
    case False
    with assms t d a obtain seen_urls requested
      where "search_sub_topics svc
               (extract_keywords_from_description set_order topic_description) st
             = Inr (sources, seen_urls, requested)"
      by (auto simp: generate_sources_for_topic_def split: sum.splits prod.splits)
    then have "urls_unique (sources, seen_urls, requested)"
      using u by (rule search_sub_topics_urls_unique)
    then show ?thesis by (simp add: urls_unique_def)
  qed
qed

text \<open>A service that answers every query with the same article: the title and the
  sub-topics all lead to one url, and one source is returned.\<close>

lemma same_article_run:
  "fst (generate_sources_for_topic id
          (\<lambda>requested q. Results [''Linear algebra'']
             [''https://en.wikipedia.org/wiki/Linear_algebra''])
          [''title'' \<mapsto> ''Linear Algebra'',
           ''description'' \<mapsto> ''Covers vector spaces, matrices, and inner products.''])
     = Inr [\<lparr>source_url = ''https://en.wikipedia.org/wiki/Linear_algebra'',
              source_type = ''Wikipedia Article'', source_title = ''Linear algebra'',
              relevance_score = 9 / 10, context_for_topic = ''Linear Algebra''\<rparr>]"
  by code_simp

theorem generate_sources_for_topic_urls_distinct_witness:
  "distinct (map source_url
     [\<lparr>source_url = ''https://en.wikipedia.org/wiki/Linear_algebra'',
              source_type = ''Wikipedia Article'', source_title = ''Linear algebra'',
              relevance_score = 9 / 10, context_for_topic = ''Linear Algebra''\<rparr>])"
  using generate_sources_for_topic_urls_distinct [OF same_article_run] .

text \<open>
  Claim C10: a topic without the key \<open>title\<close>, or with it and without the key
  \<open>description\<close>, raises \<open>KeyError\<close> for that key, and no term has been requested from
  the search service.
\<close>

theorem generate_sources_for_topic_key_error:
  "(topic_data ''title'' = None \<longrightarrow>
      generate_sources_for_topic set_order svc topic_data = (Inl (KeyError ''title''), []))
   \<and> (topic_data ''title'' \<noteq> None \<and> topic_data ''description'' = None \<longrightarrow>
      generate_sources_for_topic set_order svc topic_data
        = (Inl (KeyError ''description''), []))"
  by (auto simp: generate_sources_for_topic_def)

theorem generate_sources_for_topic_key_error_witness:
  "generate_sources_for_topic id (\<lambda>requested q. RequestException) Map.empty
     = (Inl (KeyError ''title''), [])
   \<and> generate_sources_for_topic id (\<lambda>requested q. RequestException)
        [''title'' \<mapsto> ''Linear Algebra''] = (Inl (KeyError ''description''), [])"
  using generate_sources_for_topic_key_error
      [of Map.empty id "\<lambda>requested q. RequestException"]
    generate_sources_for_topic_key_error
      [of "[''title'' \<mapsto> ''Linear Algebra'']" id "\<lambda>requested q. RequestException"]
  by simp

section \<open>Properties of \<open>generate_learning_roadmap\<close>\<close>

text \<open>
  Claim C6: when the collaborator raises, or answers with a text that \<open>json.loads\<close>
  rejects once stripped of whitespace and fences, the result is the empty list; the
  function has a value on every input, so that nothing is raised to the caller.
\<close>

theorem generate_learning_roadmap_failure_empty:
  assumes "(\<exists>e. generate_content (prompt learning_goal) = Inl e)
     \<or> (\<exists>text. generate_content (prompt learning_goal) = Inr text
           \<and> json_loads (strip_fences (strip text)) = None)"
  shows "generate_learning_roadmap generate_content json_loads learning_goal = JArr []"
  using assms by (auto simp: generate_learning_roadmap_def parse_response_def)

theorem generate_learning_roadmap_failure_empty_witness:
  "generate_learning_roadmap (\<lambda>p. Inl ''connection reset'')
     (\<lambda>s. if s = ''[]'' then Some (JArr []) else None) ''Learn Web Development'' = JArr []
   \<and> generate_learning_roadmap (\<lambda>p. (Inr ''```json\<newline>[oops\<newline>```'' :: string + string))
     (\<lambda>s. if s = ''[]'' then Some (JArr []) else None) ''Learn Web Development'' = JArr []"
proof -
  have f: "strip_fences (strip ''```json\<newline>[oops\<newline>```'') = ''[oops''"
    by code_simp
  have 1: "generate_learning_roadmap (\<lambda>p. Inl ''connection reset'')
     (\<lambda>s. if s = ''[]'' then Some (JArr []) else None) ''Learn Web Development'' = JArr []"
    by (rule generate_learning_roadmap_failure_empty) simp
  have 2: "generate_learning_roadmap
     (\<lambda>p. (Inr ''```json\<newline>[oops\<newline>```'' :: string + string))
     (\<lambda>s. if s = ''[]'' then Some (JArr []) else None) ''Learn Web Development'' = JArr []"
    by (rule generate_learning_roadmap_failure_empty) (simp add: f)
  from 1 2 show ?thesis by simp
qed

section \<open>Properties of \<open>generate_roadmap_endpoint\<close>\<close>

text \<open>
  Claim C9: without the key \<open>goal\<close> the endpoint raises the HTTP error 400 and has not
  called the ingestion; with a goal that is a non-empty string it calls the ingestion
  once, with that goal, and what it raises, if anything, is not the HTTP error of the
  check.
\<close>

theorem generate_roadmap_endpoint_goal_check:
  "(data ''goal'' = None \<longrightarrow>
      generate_roadmap_endpoint ingest data
        = (Inl (HTTPException 400 ''Missing learning goal.''), []))
   \<and> (\<forall>g. data ''goal'' = Some (JStr g) \<and> g \<noteq> [] \<longrightarrow>
        (\<forall>detail. fst (generate_roadmap_endpoint ingest data) \<noteq> Inl (HTTPException 400 detail))
        \<and> snd (generate_roadmap_endpoint ingest data)
            = [(JStr g, case data ''user_id'' of None \<Rightarrow> JStr ''user123'' | Some v \<Rightarrow> v)])"
  by (auto simp: generate_roadmap_endpoint_def Let_def split: sum.splits option.splits)

theorem generate_roadmap_endpoint_goal_check_witness:
  "generate_roadmap_endpoint (\<lambda>g u. (Inr (JArr []) :: string + json)) Map.empty
     = (Inl (HTTPException 400 ''Missing learning goal.''), [])
   \<and> snd (generate_roadmap_endpoint (\<lambda>g u. (Inr (JArr []) :: string + json))
        [''goal'' \<mapsto> JStr ''Learn Web Development''])
     = [(JStr ''Learn Web Development'', JStr ''user123'')]"
  using generate_roadmap_endpoint_goal_check
      [of Map.empty "\<lambda>g u. (Inr (JArr []) :: string + json)"]
    generate_roadmap_endpoint_goal_check
      [of "[''goal'' \<mapsto> JStr ''Learn Web Development'']"
          "\<lambda>g u. (Inr (JArr []) :: string + json)"]
  by simp

section \<open>Properties of the GraphValidator\<close>

lemma validate_from_duplicate:
  "DuplicateId n x \<in> set (validate_from pos earlier ts) \<longleftrightarrow>
     (\<exists>i < length ts. n = pos + i \<and> x = topic_id (ts ! i)
        \<and> (x \<in> set earlier \<or> (\<exists>j < i. topic_id (ts ! j) = x)))"
proof (induction ts arbitrary: pos earlier)
  case Nil
  then show ?case by simp
next
  case (Cons t ts)
  have here: "DuplicateId n x \<in> set (if topic_id t \<in> set earlier
                 then [DuplicateId pos (topic_id t)] else [])
      \<longleftrightarrow> n = pos \<and> x = topic_id t \<and> x \<in> set earlier"
    by auto
  have later: "DuplicateId n x \<in> set (validate_from (pos + 1) (earlier @ [topic_id t]) ts)
      \<longleftrightarrow> (\<exists>i < length ts. n = pos + Suc i \<and> x = topic_id (ts ! i)
             \<and> (x \<in> set earlier \<or> x = topic_id t \<or> (\<exists>j < i. topic_id (ts ! j) = x)))"
    by (simp add: Cons.IH) blast
  have split: "(\<exists>i < length (t # ts). P i) \<longleftrightarrow> P 0 \<or> (\<exists>i < length ts. P (Suc i))" for P
    by (auto simp: less_Suc_eq_0_disj)
  have inner: "(\<exists>j < Suc i. topic_id ((t # ts) ! j) = x)
      \<longleftrightarrow> x = topic_id t \<or> (\<exists>j < i. topic_id (ts ! j) = x)" for i
    by (auto simp: less_Suc_eq_0_disj)
  show ?case
    unfolding validate_from.simps set_append Un_iff here later split
    by (auto simp: inner)
qed


lemma validate_from_unresolved:
  "UnresolvedPrerequisite n p \<in> set (validate_from pos earlier ts) \<longleftrightarrow>
     (\<exists>i < length ts. n = pos + i \<and> p \<in> set (prerequisites (ts ! i))
        \<and> p \<notin> set earlier \<and> (\<forall>j < i. topic_id (ts ! j) \<noteq> p))"
proof (induction ts arbitrary: pos earlier)
  case Nil
  then show ?case by simp
next
  case (Cons t ts)
  have dup: "UnresolvedPrerequisite n p \<notin> set (if topic_id t \<in> set earlier
                 then [DuplicateId pos (topic_id t)] else [])"
    by simp
  have here: "UnresolvedPrerequisite n p
        \<in> set (map (UnresolvedPrerequisite pos)
                 (filter (\<lambda>p. p \<notin> set earlier) (prerequisites t)))
      \<longleftrightarrow> n = pos \<and> p \<in> set (prerequisites t) \<and> p \<notin> set earlier"
    by auto
  have later: "UnresolvedPrerequisite n p
        \<in> set (validate_from (pos + 1) (earlier @ [topic_id t]) ts)
      \<longleftrightarrow> (\<exists>i < length ts. n = pos + Suc i \<and> p \<in> set (prerequisites (ts ! i))
             \<and> p \<notin> set earlier \<and> p \<noteq> topic_id t \<and> (\<forall>j < i. topic_id (ts ! j) \<noteq> p))"
    by (simp add: Cons.IH) blast
  have split: "(\<exists>i < length (t # ts). P i) \<longleftrightarrow> P 0 \<or> (\<exists>i < length ts. P (Suc i))" for P
    by (auto simp: less_Suc_eq_0_disj)
  have inner: "(\<forall>j < Suc i. topic_id ((t # ts) ! j) \<noteq> p)
      \<longleftrightarrow> p \<noteq> topic_id t \<and> (\<forall>j < i. topic_id (ts ! j) \<noteq> p)" for i
    by (auto simp: less_Suc_eq_0_disj)
  show ?case
    unfolding validate_from.simps set_append Un_iff here later split
    using dup by (auto simp: inner)
qed

text \<open>
  Claim C7, for the operation modelled from the spec: the topic at position \<open>i\<close> is
  reported as a duplicate exactly when a topic before it has its id, and a
  prerequisite id of the topic at position \<open>i\<close> is reported exactly when no topic
  before it has that id. So every such topic is flagged, and no other.
\<close>

theorem validate_topics_flags:
  "(DuplicateId i x \<in> set (validate_topics ts) \<longleftrightarrow>
      i < length ts \<and> x = topic_id (ts ! i) \<and> (\<exists>j < i. topic_id (ts ! j) = x))
   \<and> (UnresolvedPrerequisite i p \<in> set (validate_topics ts) \<longleftrightarrow>
      i < length ts \<and> p \<in> set (prerequisites (ts ! i)) \<and> (\<forall>j < i. topic_id (ts ! j) \<noteq> p))"
  by (auto simp: validate_topics_def validate_from_duplicate validate_from_unresolved)

text \<open>The sequence of the example has no violation; with the second topic left out and
  the first repeated, the repetition and the missing prerequisite are reported.\<close>

lemma web_development_valid:
  "validate_topics [html_basics, css_fundamentals, js_intro] = []"
  by (simp add: validate_topics_def html_basics_def css_fundamentals_def js_intro_def)

theorem validate_topics_flags_witness:
  "DuplicateId 2 ''html_basics'' \<in> set (validate_topics [html_basics, js_intro, html_basics])
   \<and> UnresolvedPrerequisite 1 ''css_fundamentals''
        \<in> set (validate_topics [html_basics, js_intro, html_basics])
   \<and> UnresolvedPrerequisite 1 ''html_basics''
        \<notin> set (validate_topics [html_basics, js_intro, html_basics])"
proof -
  let ?ts = "[html_basics, js_intro, html_basics]"
  have a: "(2::nat) < length ?ts \<and> ''html_basics'' = topic_id (?ts ! 2)
      \<and> (\<exists>j < 2. topic_id (?ts ! j) = ''html_basics'')"
    by (auto simp: html_basics_def intro!: exI [of _ 0])
  have 1: "DuplicateId 2 ''html_basics'' \<in> set (validate_topics ?ts)"
    using validate_topics_flags [of 2 "''html_basics''" ?ts "''html_basics''", THEN conjunct1] a
    by (rule iffD2)
  have b: "(1::nat) < length ?ts \<and> ''css_fundamentals'' \<in> set (prerequisites (?ts ! 1))
      \<and> (\<forall>j < 1. topic_id (?ts ! j) \<noteq> ''css_fundamentals'')"
    by (simp add: html_basics_def js_intro_def)
  have 2: "UnresolvedPrerequisite 1 ''css_fundamentals'' \<in> set (validate_topics ?ts)"
    using validate_topics_flags [of 1 "''html_basics''" ?ts "''css_fundamentals''", THEN conjunct2] b
    by (rule iffD2)
  have c: "\<not> ((1::nat) < length ?ts \<and> ''html_basics'' \<in> set (prerequisites (?ts ! 1))
      \<and> (\<forall>j < 1. topic_id (?ts ! j) \<noteq> ''html_basics''))"
    by (simp add: html_basics_def js_intro_def)
  have 3: "UnresolvedPrerequisite 1 ''html_basics'' \<notin> set (validate_topics ?ts)"
    by (rule contrapos_nn [OF c])
      (rule validate_topics_flags [of 1 "''html_basics''" ?ts "''html_basics''",
         THEN conjunct2, THEN iffD1])
  from 1 2 3 show ?thesis by (intro conjI)
qed

end
